theory Spec2Isabelle
  imports Complex_Main "HOL-Library.Log_Nat"
begin

section \<open>The options-trading notebook\<close>

text \<open>
  The program is a Jupyter notebook of eight code cells that run top to bottom. Two cells
  carry logic: the risk-management cell, which reads the account configuration, sets
  \<open>max_options_trading_level\<close> to 1 and writes it back, and the last cell, which
  takes today's date, adds 14 and 90 days to it, fetches the latest trade of TSLA and binds
  \<open>min_strike = str(round(underlying_last_price * 1.02, 2))\<close>. The other cells
  pass values to and from the brokerage client. Everything the notebook touches outside
  itself (the brokerage account, the market data, the clock) is a field of one record, the
  \<open>world\<close>, passed through the cells; the \<open>print\<close> calls only write
  to standard output and are left out.
\<close>

subsection \<open>Exceptions\<close>

text \<open>
  \<open>OverflowError\<close>, \<open>KeyError\<close>, \<open>TypeError\<close> are Python's own;
  \<open>APIError\<close> is the brokerage client's. \<open>InvalidWindowError\<close>,
  \<open>InvalidPriceError\<close> and \<open>RiskViolation\<close> are the error taxonomy of
  the specification; no statement of the notebook raises them.
\<close>

datatype risk_reason = ceiling_exceeded | account_misconfigured

datatype error =
    OverflowError
  | KeyError
  | TypeError
  | APIError
  | InvalidWindowError
  | InvalidPriceError
  | RiskViolation risk_reason

subsection \<open>Dates\<close>

text \<open>
  A \<open>datetime.date\<close> is its proleptic Gregorian ordinal: 0001-01-01 is day 1 and
  9999-12-31, \<open>date.max\<close>, is day 3652059. A \<open>timedelta(days=n)\<close> is its
  number of days. \<open>date + timedelta\<close> adds the ordinals and raises
  \<open>OverflowError\<close> when the result leaves the range of \<open>date\<close>.
\<close>

datatype date = Date (toordinal: int)

datatype timedelta = Timedelta (days: int)

definition MAXORDINAL :: int where
  "MAXORDINAL = 3652059"

definition valid_date :: "date \<Rightarrow> bool" where
  "valid_date d = (0 < toordinal d \<and> toordinal d \<le> MAXORDINAL)"

definition date_add :: "date \<Rightarrow> timedelta \<Rightarrow> error + date" where
  "date_add d td =
     (let ord = toordinal d + days td
      in if 0 < ord \<and> ord \<le> MAXORDINAL then Inr (Date ord) else Inl OverflowError)"

subsection \<open>Python floats\<close>

text \<open>
  The last trade price is a Python \<open>float\<close>, an IEEE 754 binary64 number. A finite
  float is modelled by the rational number it stands for, with the negative zero, the two
  infinities and NaN beside it; \<open>Finite 0\<close> is the positive zero. Every operation
  computes the exact rational result and rounds it to the nearest binary64 number, ties to
  even, as the hardware does. Rationals that are no binary64 number are values of the type
  too; the operations are defined on them in the same way.
\<close>

datatype pyfloat = Finite rat | NegZero | PosInf | NegInf | NaN

definition two_powi :: "int \<Rightarrow> rat" where
  "two_powi e = 2 powi e"

text \<open>The exponent of a positive rational: \<open>2 ^ e \<le> a < 2 ^ (e + 1)\<close>.\<close>

definition floor_log2 :: "rat \<Rightarrow> int" where
  "floor_log2 a =
     (let (p, q) = quotient_of a; e = bitlen p - bitlen q
      in if two_powi e \<le> a then e else e - 1)"

definition round_half_even :: "rat \<Rightarrow> int" where
  "round_half_even x =
     (let n = \<lfloor>x\<rfloor>; d = x - of_int n
      in if d < 1 / 2 then n else if 1 / 2 < d then n + 1 else if even n then n else n + 1)"

text \<open>
  The spacing of the binary64 numbers around a positive rational: 53 significant bits,
  and the fixed spacing \<open>2 ^ - 1074\<close> of the subnormal numbers below
  \<open>2 ^ - 1022\<close>.
\<close>

definition ulp_of :: "rat \<Rightarrow> rat" where
  "ulp_of a = two_powi (max (floor_log2 a) (- 1022) - 52)"

definition round_magnitude :: "rat \<Rightarrow> rat" where
  "round_magnitude a = of_int (round_half_even (a / ulp_of a)) * ulp_of a"

text \<open>
  Rounding an exact result to a float. A magnitude that rounds to \<open>2 ^ 1024\<close> or
  more overflows to an infinity; one that rounds to zero keeps its sign.
\<close>

definition round_to_double :: "rat \<Rightarrow> pyfloat" where
  "round_to_double x =
     (if x = 0 then Finite 0
      else let m = round_magnitude \<bar>x\<bar>
           in if two_powi 1024 \<le> m then (if 0 < x then PosInf else NegInf)
              else if m = 0 then (if 0 < x then Finite 0 else NegZero)
              else Finite (if 0 < x then m else - m))"

definition sign_bit :: "pyfloat \<Rightarrow> bool" where
  "sign_bit x =
     (case x of Finite a \<Rightarrow> a < 0 | NegZero \<Rightarrow> True | NegInf \<Rightarrow> True | _ \<Rightarrow> False)"

definition is_zero :: "pyfloat \<Rightarrow> bool" where
  "is_zero x = (x = Finite 0 \<or> x = NegZero)"

definition is_inf :: "pyfloat \<Rightarrow> bool" where
  "is_inf x = (x = PosInf \<or> x = NegInf)"

text \<open>\<open>x * y\<close> on floats.\<close>

definition float_mul :: "pyfloat \<Rightarrow> pyfloat \<Rightarrow> pyfloat" where
  "float_mul x y =
     (if x = NaN \<or> y = NaN then NaN
      else if is_inf x \<or> is_inf y then
        (if is_zero x \<or> is_zero y then NaN
         else if sign_bit x = sign_bit y then PosInf else NegInf)
      else if is_zero x \<or> is_zero y then
        (if sign_bit x = sign_bit y then Finite 0 else NegZero)
      else (case (x, y) of (Finite a, Finite b) \<Rightarrow> round_to_double (a * b) | _ \<Rightarrow> NaN))"

text \<open>
  \<open>round(x, ndigits)\<close> on a float, as CPython computes it: an infinity or a NaN is
  returned as it is; otherwise the exact value is rounded to \<open>ndigits\<close> decimal
  places, ties to even, and the decimal is converted to the nearest float.
  \<open>OverflowError\<close> is raised when that float is out of range.
\<close>

definition float_round :: "pyfloat \<Rightarrow> int \<Rightarrow> error + pyfloat" where
  "float_round x ndigits =
     (case x of
        Finite a \<Rightarrow>
          if 323 < ndigits then Inr x
          else if ndigits < - 308 then Inr (float_mul (Finite 0) x)
          else
            let k = round_half_even (\<bar>a\<bar> * 10 powi ndigits);
                r = of_int k / 10 powi ndigits
            in if k = 0 then Inr (if a < 0 then NegZero else Finite 0)
               else (case round_to_double (if a < 0 then - r else r) of
                       PosInf \<Rightarrow> Inl OverflowError
                     | NegInf \<Rightarrow> Inl OverflowError
                     | y \<Rightarrow> Inr y)
      | _ \<Rightarrow> Inr x)"

text \<open>
  \<open>str(x)\<close> on a float is its \<open>repr\<close>: the shortest decimal digit string that
  converts back to the same float (the nearest one to the float, when several have that
  length), written with a decimal point, or in exponent notation when the decimal exponent
  is below \<open>- 4\<close> or at least 16.
\<close>

function declen :: "int \<Rightarrow> int" where
  "declen n = (if 0 < n then declen (n div 10) + 1 else 0)"
  by pat_completeness auto
termination
  by (relation "measure nat") auto

declare declen.simps [simp del]

definition floor_log10 :: "rat \<Rightarrow> int" where
  "floor_log10 a =
     (let (p, q) = quotient_of a; e = declen p - declen q
      in if 10 powi e \<le> a then e else e - 1)"

primrec digits :: "nat \<Rightarrow> int \<Rightarrow> string" where
  "digits 0 n = []"
| "digits (Suc k) n = digits k (n div 10) @ [''0123456789'' ! nat (n mod 10)]"

text \<open>
  \<open>shortest fuel n a E\<close> tries \<open>n\<close>, \<open>n + 1\<close>, ... significant digits for
  the positive float \<open>a\<close> with \<open>10 ^ E \<le> a < 10 ^ (E + 1)\<close> and returns the
  digits as an integer with its decimal exponent; 17 digits always suffice.
\<close>

fun shortest :: "nat \<Rightarrow> nat \<Rightarrow> rat \<Rightarrow> int \<Rightarrow> int \<times> int" where
  "shortest 0 n a E = (round_half_even (a / 10 powi (E - 16)), E - 16)"
| "shortest (Suc fuel) n a E =
     (let s = 10 powi (E - int n + 1);
          lo = \<lfloor>a / s\<rfloor>;
          ok_lo = (round_to_double (of_int lo * s) = Finite a);
          ok_hi = (round_to_double (of_int (lo + 1) * s) = Finite a);
          near_lo = (a - of_int lo * s < of_int (lo + 1) * s - a
                     \<or> (a - of_int lo * s = of_int (lo + 1) * s - a \<and> even lo))
      in if ok_lo \<and> (\<not> ok_hi \<or> near_lo) then (lo, E - int n + 1)
         else if ok_hi then (lo + 1, E - int n + 1)
         else shortest fuel (Suc n) a E)"

function strip_zeros :: "int \<times> int \<Rightarrow> int \<times> int" where
  "strip_zeros (m, e) =
     (if m \<noteq> 0 \<and> m mod 10 = 0 then strip_zeros (m div 10, e + 1) else (m, e))"
  by pat_completeness auto
termination
  by (relation "measure (\<lambda>(m, e). nat \<bar>m\<bar>)") auto

declare strip_zeros.simps [simp del]

definition exponent_str :: "int \<Rightarrow> string" where
  "exponent_str e =
     (if e < 0 then ''-'' else ''+'') @ digits (max 2 (nat (declen \<bar>e\<bar>))) \<bar>e\<bar>"

definition format_repr :: "rat \<Rightarrow> string" where
  "format_repr a =
     (let (m, e10) = strip_zeros (shortest 16 1 a (floor_log10 a));
          nd = nat (declen m);
          ds = digits nd m;
          decpt = int nd + e10
      in if decpt \<le> - 4 \<or> 16 < decpt then
           take 1 ds @ (if 1 < nd then ''.'' @ drop 1 ds else []) @ ''e'' @
           exponent_str (decpt - 1)
         else if decpt \<le> 0 then ''0.'' @ replicate (nat (- decpt)) CHR ''0'' @ ds
         else if int nd \<le> decpt then ds @ replicate (nat (decpt - int nd)) CHR ''0'' @ ''.0''
         else take (nat decpt) ds @ ''.'' @ drop (nat decpt) ds)"

definition float_str :: "pyfloat \<Rightarrow> string" where
  "float_str x =
     (case x of
        Finite a \<Rightarrow> if a = 0 then ''0.0''
                    else if a < 0 then ''-'' @ format_repr (- a) else format_repr a
      | NegZero \<Rightarrow> ''-0.0''
      | PosInf \<Rightarrow> ''inf''
      | NegInf \<Rightarrow> ''-inf''
      | NaN \<Rightarrow> ''nan'')"

text \<open>
  The order of floats: NaN compares false with everything, the two zeros are equal.
\<close>

definition float_key :: "pyfloat \<Rightarrow> (int \<times> rat) option" where
  "float_key x =
     (case x of
        Finite a \<Rightarrow> Some (0, a)
      | NegZero \<Rightarrow> Some (0, 0)
      | PosInf \<Rightarrow> Some (1, 0)
      | NegInf \<Rightarrow> Some (- 1, 0)
      | NaN \<Rightarrow> None)"

definition float_less :: "pyfloat \<Rightarrow> pyfloat \<Rightarrow> bool" where
  "float_less x y =
     (case (float_key x, float_key y) of
        (Some (i, a), Some (j, b)) \<Rightarrow> i < j \<or> (i = j \<and> a < b)
      | _ \<Rightarrow> False)"

definition float_ge :: "pyfloat \<Rightarrow> pyfloat \<Rightarrow> bool" where
  "float_ge x y =
     (case (float_key x, float_key y) of
        (Some (i, a), Some (j, b)) \<Rightarrow> j < i \<or> (i = j \<and> b \<le> a)
      | _ \<Rightarrow> False)"

subsection \<open>Values and their comparison\<close>

text \<open>
  The two kinds of value \<open>min_strike\<close> and a strike price can be. Python 3 orders
  floats with floats and strings with strings (by code point); \<open>>=\<close> between a float
  and a string raises \<open>TypeError\<close>.
\<close>

datatype pyval = PyFloat pyfloat | PyStr string



subsection \<open>The minimum strike of the last cell\<close>

text \<open>
  \<^verbatim>\<open>
  min_strike = str(round(underlying_last_price * 1.02, 2))
  \<close>
  The literal \<open>1.02\<close> is the float nearest to 102/100. \<open>min_strike_value\<close> is
  the float that \<open>round\<close> returns, \<open>min_strike\<close> the string bound to the
  variable.
\<close>

definition float_literal_1_02 :: pyfloat where
  "float_literal_1_02 = round_to_double (102 / 100)"

definition min_strike_value :: "pyfloat \<Rightarrow> error + pyfloat" where
  "min_strike_value price = float_round (float_mul price float_literal_1_02) 2"

definition min_strike :: "pyfloat \<Rightarrow> error + pyval" where
  "min_strike price =
     (case min_strike_value price of Inl e \<Rightarrow> Inl e | Inr v \<Rightarrow> Inr (PyStr (float_str v)))"

text \<open>
  The minimum strike as the specification words it, on exact decimals: the price times
  1.02, rounded half-up to two decimal places.
\<close>

definition round_half_up_2dp :: "rat \<Rightarrow> rat" where
  "round_half_up_2dp x = of_int \<lfloor>x * 100 + 1 / 2\<rfloor> / 100"

definition spec_compute_min_strike :: "rat \<Rightarrow> rat" where
  "spec_compute_min_strike last_price = round_half_up_2dp (last_price * (102 / 100))"

subsection \<open>The brokerage account, the market data and the clock\<close>

record account =
  options_approved_level :: int
  options_trading_level :: int
  options_buying_power :: int

text \<open>
  The account configuration as the client returns it. The notebook's saved output shows
  \<open>max_options_trading_level\<close> as \<open>None\<close> before the first write, so
  the field is optional.
\<close>

record account_configurations =
  max_options_trading_level :: "int option"
  other_settings :: "(string \<times> string) list"

record asset =
  symbol :: string
  attributes :: "string list"

record position =
  position_symbol :: string
  qty :: int

record trade =
  price :: pyfloat

text \<open>
  What the notebook builds and what it asks of its clients, in the order it happens. The
  two order requests and \<open>submit_order\<close> are imported by the notebook, or offered
  by the client, and are events like the others.
\<close>

datatype request =
    GetAssetsRequest
  | StockLatestTradeRequest string
  | LimitOrderRequest
  | MarketOrderRequest

datatype event =
    Constructed request
  | get_account
  | get_account_configurations
  | set_account_configurations account_configurations
  | get_all_assets
  | get_asset string
  | get_all_positions
  | get_stock_latest_trade string
  | submit_order

fun is_order_event :: "event \<Rightarrow> bool" where
  "is_order_event (Constructed LimitOrderRequest) = True"
| "is_order_event (Constructed MarketOrderRequest) = True"
| "is_order_event submit_order = True"
| "is_order_event _ = False"

text \<open>
  The clock is a sequence of readings: \<open>clock w n\<close> is the date the \<open>n\<close>-th
  call of \<open>datetime.now().date()\<close> returns, and \<open>ticks\<close> counts the calls
  made so far.
\<close>

record world =
  acct :: account
  acct_config :: account_configurations
  options_assets :: "asset list"
  asset_table :: "(string \<times> asset) list"
  position_list :: "position list"
  latest_trades :: "(string \<times> trade) list"
  clock :: "nat \<Rightarrow> date"
  ticks :: nat
  events :: "event list"

definition log_event :: "event \<Rightarrow> world \<Rightarrow> world" where
  "log_event e w = w\<lparr>events := events w @ [e]\<rparr>"

definition datetime_now_date :: "world \<Rightarrow> date \<times> world" where
  "datetime_now_date w = (clock w (ticks w), w\<lparr>ticks := Suc (ticks w)\<rparr>)"

definition trade_client_get_account :: "world \<Rightarrow> account \<times> world" where
  "trade_client_get_account w = (acct w, log_event get_account w)"

definition trade_client_get_account_configurations ::
    "world \<Rightarrow> account_configurations \<times> world" where
  "trade_client_get_account_configurations w =
     (acct_config w, log_event get_account_configurations w)"

definition trade_client_set_account_configurations ::
    "account_configurations \<Rightarrow> world \<Rightarrow> world" where
  "trade_client_set_account_configurations c w =
     log_event (set_account_configurations c) (w\<lparr>acct_config := c\<rparr>)"

definition trade_client_get_all_assets :: "world \<Rightarrow> asset list \<times> world" where
  "trade_client_get_all_assets w = (options_assets w, log_event get_all_assets w)"

text \<open>The client raises \<open>APIError\<close> for a symbol the brokerage does not know.\<close>

definition trade_client_get_asset :: "string \<Rightarrow> world \<Rightarrow> world \<times> (error + asset)" where
  "trade_client_get_asset s w =
     (log_event (get_asset s) w,
      case map_of (asset_table w) s of None \<Rightarrow> Inl APIError | Some a \<Rightarrow> Inr a)"

definition trade_client_get_all_positions :: "world \<Rightarrow> position list \<times> world" where
  "trade_client_get_all_positions w = (position_list w, log_event get_all_positions w)"

text \<open>The answer is a dictionary from the symbols asked for to their latest trades.\<close>

definition stock_data_client_get_stock_latest_trade ::
    "string \<Rightarrow> world \<Rightarrow> (string \<times> trade) list \<times> world" where
  "stock_data_client_get_stock_latest_trade s w =
     (filter (\<lambda>(k, t). k = s) (latest_trades w), log_event (get_stock_latest_trade s) w)"

subsection \<open>The account cell\<close>

text \<open>
  \<^verbatim>\<open>
  acct = trade_client.get_account()
  \<close>
  followed by three \<open>print\<close> calls.
\<close>

definition cell_3 :: "world \<Rightarrow> world \<times> (error + account)" where
  "cell_3 w = (let (a, w1) = trade_client_get_account w in (w1, Inr a))"

subsection \<open>The risk-management cell\<close>

text \<open>
  \<^verbatim>\<open>
  acct_config = trade_client.get_account_configurations()
  print(f"Max Options Trading Level: {acct_config.max_options_trading_level}")
  acct_config.max_options_trading_level = 1
  trade_client.set_account_configurations(acct_config)
  acct_config = trade_client.get_account_configurations()
  print(f"Max Options Trading Level: {acct_config.max_options_trading_level}")
  \<close>
  The cell's result is the pair of levels it prints: the one read first and the one read
  back after the write.
\<close>

definition cell_4 :: "world \<Rightarrow> world \<times> (error + int option \<times> int option)" where
  "cell_4 w =
     (let (read_config, w1) = trade_client_get_account_configurations w;
          new_config = read_config\<lparr>max_options_trading_level := Some 1\<rparr>;
          w2 = trade_client_set_account_configurations new_config w1;
          (read_back, w3) = trade_client_get_account_configurations w2
      in (w3, Inr (max_options_trading_level read_config,
                   max_options_trading_level read_back)))"

text \<open>The configuration the cell sends to the brokerage, if it sends one.\<close>

fun written_configs :: "event list \<Rightarrow> account_configurations list" where
  "written_configs [] = []"
| "written_configs (set_account_configurations c # es) = c # written_configs es"
| "written_configs (_ # es) = written_configs es"

text \<open>The levels the cell sends to the brokerage when it runs on \<open>w\<close>.\<close>

definition levels_written :: "world \<Rightarrow> int option list" where
  "levels_written w =
     map max_options_trading_level
       (written_configs (drop (length (events w)) (events (fst (cell_4 w)))))"

subsection \<open>The assets cell and the positions cell\<close>

text \<open>
  \<^verbatim>\<open>
  req = GetAssetsRequest(status = AssetStatus.ACTIVE, attributes = "options_enabled")
  options_enabled_underlyings = trade_client.get_all_assets(req)
  underlying_symbol = "TSLA"
  underlying = trade_client.get_asset(symbol_or_asset_id=underlying_symbol)
  \<close>
\<close>

record cell_5_vars =
  options_enabled_underlyings :: "asset list"
  underlying_symbol :: string
  underlying :: asset

definition cell_5 :: "world \<Rightarrow> world \<times> (error + cell_5_vars)" where
  "cell_5 w =
     (let w1 = log_event (Constructed GetAssetsRequest) w;
          (assets, w2) = trade_client_get_all_assets w1;
          (w3, r) = trade_client_get_asset ''TSLA'' w2
      in case r of
           Inl e \<Rightarrow> (w3, Inl e)
         | Inr a \<Rightarrow>
             (w3, Inr \<lparr>options_enabled_underlyings = assets, underlying_symbol = ''TSLA'',
                       underlying = a\<rparr>))"

text \<open>
  \<^verbatim>\<open>
  positions = trade_client.get_all_positions()
  for p in positions:
      print(p)
  \<close>
\<close>

definition cell_6 :: "world \<Rightarrow> world \<times> (error + position list)" where
  "cell_6 w = (let (ps, w1) = trade_client_get_all_positions w in (w1, Inr ps))"

subsection \<open>The last cell\<close>

text \<open>
  \<^verbatim>\<open>
  today = datetime.now().date()
  min_expiration = today + timedelta(days=14)
  max_expiration = today + timedelta(days=90)
  \<close>
\<close>

record expiration_window =
  today :: date
  min_expiration :: date
  max_expiration :: date

definition cell_7_window :: "world \<Rightarrow> world \<times> (error + expiration_window)" where
  "cell_7_window w =
     (let (t, w1) = datetime_now_date w
      in case date_add t (Timedelta 14) of
           Inl e \<Rightarrow> (w1, Inl e)
         | Inr lo \<Rightarrow>
             (case date_add t (Timedelta 90) of
                Inl e \<Rightarrow> (w1, Inl e)
              | Inr hi \<Rightarrow>
                  (w1, Inr \<lparr>today = t, min_expiration = lo, max_expiration = hi\<rparr>)))"

text \<open>
  \<^verbatim>\<open>
  underlying_trade_request = StockLatestTradeRequest(symbol_or_symbols=underlying_symbol)
  underlying_latest_trade = stock_data_client.get_stock_latest_trade(underlying_trade_request)
  underlying_last_price = underlying_latest_trade[underlying_symbol].price
  min_strike = str(round(underlying_last_price * 1.02, 2))
  \<close>
  The cell ends after three more \<open>print\<close> calls; nothing follows it.
\<close>

record cell_7_vars =
  window :: expiration_window
  underlying_last_price :: pyfloat
  min_strike_var :: pyval

definition cell_7 :: "string \<Rightarrow> world \<Rightarrow> world \<times> (error + cell_7_vars)" where
  "cell_7 s w =
     (case cell_7_window w of
        (w1, Inl e) \<Rightarrow> (w1, Inl e)
      | (w1, Inr win) \<Rightarrow>
          (let w2 = log_event (Constructed (StockLatestTradeRequest s)) w1;
               (underlying_latest_trade, w3) = stock_data_client_get_stock_latest_trade s w2
           in case map_of underlying_latest_trade s of
                None \<Rightarrow> (w3, Inl KeyError)
              | Some t \<Rightarrow>
                  (case min_strike (price t) of
                     Inl e \<Rightarrow> (w3, Inl e)
                   | Inr m \<Rightarrow>
                       (w3, Inr \<lparr>window = win, underlying_last_price = price t,
                                 min_strike_var = m\<rparr>))))"

subsection \<open>The whole notebook\<close>

text \<open>
  The cells run in order; an exception in one cell stops the run there. The first three
  cells import modules, read the credentials and build the clients.
\<close>

definition run_notebook :: "world \<Rightarrow> world \<times> (error + cell_7_vars)" where
  "run_notebook w =
     (case cell_3 w of
        (w1, Inl e) \<Rightarrow> (w1, Inl e)
      | (w1, Inr _) \<Rightarrow>
          (case cell_4 w1 of
             (w2, Inl e) \<Rightarrow> (w2, Inl e)
           | (w2, Inr _) \<Rightarrow>
               (case cell_5 w2 of
                  (w3, Inl e) \<Rightarrow> (w3, Inl e)
                | (w3, Inr v5) \<Rightarrow>
                    (case cell_6 w3 of
                       (w4, Inl e) \<Rightarrow> (w4, Inl e)
                     | (w4, Inr _) \<Rightarrow> cell_7 (underlying_symbol v5) w4))))"

text \<open>A world for the examples: the account of the notebook's saved output.\<close>

definition saved_world :: world where
  "saved_world =
     \<lparr>acct = \<lparr>options_approved_level = 2, options_trading_level = 2,
               options_buying_power = 100000\<rparr>,
      acct_config = \<lparr>max_options_trading_level = None, other_settings = []\<rparr>,
      options_assets = [],
      asset_table = [(''TSLA'', \<lparr>symbol = ''TSLA'', attributes = []\<rparr>)],
      position_list = [],
      latest_trades = [(''TSLA'', \<lparr>price = Finite 250\<rparr>)],
      clock = (\<lambda>n. Date (738886 + int n)),
      ticks = 0,
      events = []\<rparr>"

section \<open>The risk-management cell: what it checks and what it writes\<close>

lemma cell_4_result:
  "cell_4 w =
     (w\<lparr>acct_config := (acct_config w)\<lparr>max_options_trading_level := Some 1\<rparr>,
        events := events w @
          [get_account_configurations,
           set_account_configurations ((acct_config w)\<lparr>max_options_trading_level := Some 1\<rparr>),
           get_account_configurations]\<rparr>,
      Inr (max_options_trading_level (acct_config w), Some 1))"
  by (simp add: cell_4_def Let_def trade_client_get_account_configurations_def
      trade_client_set_account_configurations_def log_event_def)

lemma written_configs_append:
  "written_configs (xs @ ys) = written_configs xs @ written_configs ys"
  by (induction xs rule: written_configs.induct) simp_all

lemma levels_written_eq: "levels_written w = [Some 1]"
  by (simp add: levels_written_def cell_4_result)

text \<open>
  C4, as the specification states it, at the account of the saved output, whose current
  level is \<open>None\<close>: the cell does not fail with
  \<open>RiskViolation account_misconfigured\<close>; it returns, having written level 1.
\<close>

theorem cell_4_unset_level_not_rejected:
  "snd (cell_4 saved_world) = Inr (None, Some 1) \<and>
   snd (cell_4 saved_world) \<noteq> Inl (RiskViolation account_misconfigured) \<and>
   levels_written saved_world = [Some 1]"
  by (simp add: cell_4_result levels_written_eq saved_world_def)

text \<open>
  C4, amended: the risk-management cell takes neither a desired level nor a policy ceiling
  and checks nothing. For every world, whatever the current level is (\<open>None\<close>
  included), it returns normally, so with no \<open>RiskViolation\<close>; it reports the
  level it read and the level 1 it reads back, and it sends exactly one configuration to the
  brokerage, the one it read with the level set to 1.
\<close>

theorem cell_4_never_rejects:
  "snd (cell_4 w) = Inr (max_options_trading_level (acct_config w), Some 1) \<and>
   acct_config (fst (cell_4 w)) = (acct_config w)\<lparr>max_options_trading_level := Some 1\<rparr> \<and>
   written_configs (drop (length (events w)) (events (fst (cell_4 w)))) =
     [(acct_config w)\<lparr>max_options_trading_level := Some 1\<rparr>]"
  by (simp add: cell_4_result)

text \<open>
  C5, as the specification states it, at an account whose level is 0 (options trading
  disabled): the cell reads 0 and writes 1, a greater level.
\<close>

theorem cell_4_raises_level_from_zero:
  "fst (projr (snd (cell_4 (saved_world\<lparr>acct_config :=
      \<lparr>max_options_trading_level = Some 0, other_settings = []\<rparr>\<rparr>)))) = Some 0 \<and>
   levels_written (saved_world\<lparr>acct_config :=
      \<lparr>max_options_trading_level = Some 0, other_settings = []\<rparr>\<rparr>) = [Some 1] \<and>
   \<not> (1::int) \<le> 0"
  by (simp add: cell_4_result levels_written_eq)

text \<open>
  C5, amended: the cell writes the level 1 whatever it read. When the level it read is a
  number \<open>n\<close>, the level written is at most \<open>n\<close> exactly when
  \<open>n\<close> is at least 1.
\<close>

theorem cell_4_written_level:
  "levels_written w = [Some 1] \<and>
   (\<forall>n. max_options_trading_level (acct_config w) = Some n \<longrightarrow>
      (list_all (\<lambda>l. \<exists>m. l = Some m \<and> m \<le> n) (levels_written w) = (1 \<le> n)))"
  by (simp add: levels_written_eq)

theorem cell_4_written_level_witness:
  "max_options_trading_level (acct_config (saved_world\<lparr>acct_config :=
      \<lparr>max_options_trading_level = Some 2, other_settings = []\<rparr>\<rparr>)) = Some 2 \<and>
   levels_written (saved_world\<lparr>acct_config :=
      \<lparr>max_options_trading_level = Some 2, other_settings = []\<rparr>\<rparr>) = [Some 1] \<and>
   list_all (\<lambda>l. \<exists>m. l = Some m \<and> m \<le> 2)
     (levels_written (saved_world\<lparr>acct_config :=
        \<lparr>max_options_trading_level = Some 2, other_settings = []\<rparr>\<rparr>))"
  using cell_4_written_level [of "saved_world\<lparr>acct_config :=
      \<lparr>max_options_trading_level = Some 2, other_settings = []\<rparr>\<rparr>"]
  by simp

section \<open>The expiration window\<close>

text \<open>
  C2, as the specification states it, at today = 9999-12-31, the last
  \<open>date\<close>: the cell computes no window, the first addition raises
  \<open>OverflowError\<close>.
\<close>

theorem cell_7_window_overflow:
  "valid_date (Date 3652059) \<and>
   snd (cell_7_window (saved_world\<lparr>clock := (\<lambda>n. Date 3652059)\<rparr>)) = Inl OverflowError"
  by (simp add: valid_date_def MAXORDINAL_def cell_7_window_def datetime_now_date_def
      date_add_def saved_world_def)

text \<open>
  C2, amended: the cell reads the clock once. For every date today that the clock returns,
  when today is 9999-10-02 or earlier the window has \<open>min_expiration\<close> = today
  plus 14 days and \<open>max_expiration\<close> = today plus 90 days, both from that one
  reading; when today is later the cell raises \<open>OverflowError\<close>.
\<close>

theorem cell_7_window_from_one_reading:
  assumes "valid_date (clock w (ticks w))"
  shows "fst (cell_7_window w) = w\<lparr>ticks := Suc (ticks w)\<rparr> \<and>
         snd (cell_7_window w) =
           (if toordinal (clock w (ticks w)) + 90 \<le> MAXORDINAL
            then Inr \<lparr>today = clock w (ticks w),
                      min_expiration = Date (toordinal (clock w (ticks w)) + 14),
                      max_expiration = Date (toordinal (clock w (ticks w)) + 90)\<rparr>
            else Inl OverflowError)"
  using assms
  by (auto simp add: cell_7_window_def datetime_now_date_def date_add_def valid_date_def
      MAXORDINAL_def)

theorem cell_7_window_from_one_reading_witness:
  "valid_date (clock saved_world (ticks saved_world)) \<and>
   fst (cell_7_window saved_world) = saved_world\<lparr>ticks := Suc 0\<rparr> \<and>
   snd (cell_7_window saved_world) =
     Inr \<lparr>today = Date 738886, min_expiration = Date 738900, max_expiration = Date 738976\<rparr>"
proof -
  have v: "valid_date (clock saved_world (ticks saved_world))"
    by (simp add: saved_world_def valid_date_def MAXORDINAL_def)
  show ?thesis
    using v cell_7_window_from_one_reading [OF v]
    by (simp add: saved_world_def MAXORDINAL_def)
qed

section \<open>Rounding to a float\<close>

lemma two_powi_pos: "0 < two_powi e"
  by (simp add: two_powi_def)

lemma two_powi_add: "two_powi (a + b) = two_powi a * two_powi b"
  unfolding two_powi_def by (rule power_int_add) simp

lemma two_powi_mono: "a \<le> b \<Longrightarrow> two_powi a \<le> two_powi b"
  unfolding two_powi_def by (rule power_int_increasing) simp_all

lemma two_powi_less_cancel:
  assumes "two_powi a < two_powi b"
  shows "a < b"
proof (rule ccontr)
  assume "\<not> a < b"
  then have "two_powi b \<le> two_powi a"
    by (intro two_powi_mono) simp
  with assms show False by simp
qed

lemma two_powi_int: "0 \<le> e \<Longrightarrow> \<exists>z. two_powi e = of_int z"
proof -
  assume "0 \<le> e"
  then have "two_powi e = of_int (2 ^ nat e)"
    by (simp add: two_powi_def power_int_def)
  then show ?thesis ..
qed

lemma round_half_even_error: "\<bar>of_int (round_half_even x) - x\<bar> \<le> 1 / 2"
proof -
  have "of_int \<lfloor>x\<rfloor> \<le> x" "x < of_int \<lfloor>x\<rfloor> + 1"
    by linarith+
  then show ?thesis
    by (auto simp add: round_half_even_def Let_def)
qed

lemma round_half_even_of_int: "round_half_even (of_int n) = n"
  by (simp add: round_half_even_def)

lemma round_half_even_nonneg: "0 \<le> x \<Longrightarrow> 0 \<le> round_half_even x"
  by (auto simp add: round_half_even_def Let_def)

lemma round_half_even_floor:
  "\<lfloor>x\<rfloor> \<le> round_half_even x" "round_half_even x \<le> \<lfloor>x\<rfloor> + 1"
  by (simp_all add: round_half_even_def Let_def)

lemma round_half_even_ge:
  assumes "of_int z \<le> x"
  shows "z \<le> round_half_even x"
proof -
  have "z \<le> \<lfloor>x\<rfloor>" using assms by (simp add: le_floor_iff)
  with round_half_even_floor(1) [of x] show ?thesis by linarith
qed

lemma round_half_even_le:
  assumes "x \<le> of_int z"
  shows "round_half_even x \<le> z"
proof (cases "x = of_int z")
  case True
  then show ?thesis by (simp add: round_half_even_of_int)
next
  case False
  with assms have "x < of_int z" by simp
  then have "\<lfloor>x\<rfloor> < z" by (simp add: floor_less_iff)
  with round_half_even_floor(2) [of x] show ?thesis by linarith
qed

lemma bitlen_rat_bounds:
  assumes "0 < p"
  shows "two_powi (bitlen p - 1) \<le> of_int p" and "of_int p < two_powi (bitlen p)"
proof -
  have b: "1 \<le> bitlen p"
    using assms by (auto simp: bitlen_alt_def)
  have "(2::int) ^ nat (bitlen p - 1) \<le> p"
    using bitlen_bounds [OF assms] by simp
  then have "(of_int ((2::int) ^ nat (bitlen p - 1)) :: rat) \<le> of_int p"
    by (simp only: of_int_le_iff)
  then show "two_powi (bitlen p - 1) \<le> of_int p"
    using b by (simp add: two_powi_def power_int_def)
  have "p < (2::int) ^ nat (bitlen p)"
    using bitlen_bounds [OF assms] by simp
  then have "(of_int p :: rat) < of_int ((2::int) ^ nat (bitlen p))"
    by (simp only: of_int_less_iff)
  then show "of_int p < two_powi (bitlen p)"
    using b by (simp add: two_powi_def power_int_def)
qed

lemma floor_log2_bounds:
  assumes "0 < a"
  shows "two_powi (floor_log2 a) \<le> a" and "a < two_powi (floor_log2 a + 1)"
proof -
  obtain p q where pq: "quotient_of a = (p, q)"
    by (cases "quotient_of a")
  have q: "0 < q" using pq by (rule quotient_of_denom_pos)
  have a: "a = of_int p / of_int q" using pq by (rule quotient_of_div)
  have p: "0 < p" using assms q a by (simp add: zero_less_divide_iff)
  define e where "e = bitlen p - bitlen q"
  have e1: "two_powi (bitlen p - 1) = two_powi (e - 1) * two_powi (bitlen q)"
    unfolding two_powi_add [symmetric] by (simp add: e_def)
  have e2: "two_powi (bitlen p) = two_powi (e + 1) * two_powi (bitlen q - 1)"
    unfolding two_powi_add [symmetric] by (simp add: e_def)
  have lo: "two_powi (e - 1) \<le> a"
  proof -
    have "two_powi (e - 1) * of_int q \<le> two_powi (e - 1) * two_powi (bitlen q)"
      using bitlen_rat_bounds(2) [OF q] two_powi_pos [of "e - 1"]
      by (intro mult_left_mono) simp_all
    also have "\<dots> \<le> of_int p"
      using bitlen_rat_bounds(1) [OF p] by (simp add: e1)
    finally show ?thesis
      using q by (simp add: a pos_le_divide_eq)
  qed
  have hi: "a < two_powi (e + 1)"
  proof -
    have "of_int p < two_powi (e + 1) * two_powi (bitlen q - 1)"
      using bitlen_rat_bounds(2) [OF p] by (simp add: e2)
    also have "\<dots> \<le> two_powi (e + 1) * of_int q"
      using bitlen_rat_bounds(1) [OF q] two_powi_pos [of "e + 1"]
      by (intro mult_left_mono) simp_all
    finally show ?thesis
      using q by (simp add: a pos_divide_less_eq)
  qed
  have fl: "floor_log2 a = (if two_powi e \<le> a then e else e - 1)"
    by (simp add: floor_log2_def pq e_def Let_def)
  show "two_powi (floor_log2 a) \<le> a"
    using lo by (simp add: fl)
  show "a < two_powi (floor_log2 a + 1)"
    using hi by (simp add: fl)
qed

lemma floor_log2_eqI:
  assumes "two_powi e \<le> a" and "a < two_powi (e + 1)"
  shows "floor_log2 a = e"
proof -
  have a: "0 < a"
    using two_powi_pos assms(1) by (rule less_le_trans)
  have "two_powi (floor_log2 a) < two_powi (e + 1)"
    using floor_log2_bounds(1) [OF a] assms(2) by (rule le_less_trans)
  then have 1: "floor_log2 a < e + 1"
    by (rule two_powi_less_cancel)
  have "two_powi e < two_powi (floor_log2 a + 1)"
    using assms(1) floor_log2_bounds(2) [OF a] by (rule le_less_trans)
  then have 2: "e < floor_log2 a + 1"
    by (rule two_powi_less_cancel)
  from 1 2 show ?thesis by simp
qed

lemma ulp_of_pos: "0 < ulp_of a"
  by (simp add: ulp_of_def two_powi_pos)

lemma round_magnitude_error:
  "\<bar>round_magnitude a - a\<bar> \<le> ulp_of a / 2"
proof -
  define u where "u = ulp_of a"
  have u: "0 < u" by (simp add: u_def ulp_of_pos)
  have "round_magnitude a - a = (of_int (round_half_even (a / u)) - a / u) * u"
    using u by (simp add: round_magnitude_def u_def algebra_simps)
  then have "\<bar>round_magnitude a - a\<bar> = \<bar>of_int (round_half_even (a / u)) - a / u\<bar> * u"
    using u by (simp add: abs_mult)
  also have "\<dots> \<le> (1 / 2) * u"
    using u round_half_even_error [of "a / u"] by (intro mult_right_mono) simp_all
  finally show ?thesis by (simp add: u_def)
qed

lemma round_magnitude_nonneg: "0 \<le> a \<Longrightarrow> 0 \<le> round_magnitude a"
  using ulp_of_pos [of a]
  by (simp add: round_magnitude_def round_half_even_nonneg)

lemma ulp_of_normal:
  assumes "two_powi (- 1022) \<le> a"
  shows "ulp_of a \<le> a * two_powi (- 52)"
proof -
  have a: "0 < a"
    using two_powi_pos assms by (rule less_le_trans)
  have "two_powi (- 1022) < two_powi (floor_log2 a + 1)"
    using assms floor_log2_bounds(2) [OF a] by (rule le_less_trans)
  then have "- 1022 < floor_log2 a + 1"
    by (rule two_powi_less_cancel)
  then have "max (floor_log2 a) (- 1022) - 52 = floor_log2 a + (- 52)"
    by simp
  then have "ulp_of a = two_powi (floor_log2 a) * two_powi (- 52)"
    by (simp only: ulp_of_def two_powi_add)
  also have "\<dots> \<le> a * two_powi (- 52)"
    using floor_log2_bounds(1) [OF a] two_powi_pos [of "- 52"]
    by (intro mult_right_mono) simp_all
  finally show ?thesis .
qed

lemma round_magnitude_relative:
  assumes "two_powi (- 1022) \<le> a"
  shows "\<bar>round_magnitude a - a\<bar> \<le> a * two_powi (- 53)"
proof -
  have h: "two_powi (- 52) = two_powi (- 53) * 2"
  proof -
    have "two_powi (- 53 + 1) = two_powi (- 53) * two_powi 1"
      by (rule two_powi_add)
    then show ?thesis by (simp add: two_powi_def [of 1])
  qed
  have "\<bar>round_magnitude a - a\<bar> \<le> ulp_of a / 2"
    by (rule round_magnitude_error)
  also have "\<dots> \<le> (a * two_powi (- 52)) / 2"
    using ulp_of_normal [OF assms] by simp
  also have "\<dots> = a * two_powi (- 53)"
    by (simp add: h)
  finally show ?thesis .
qed

lemma round_magnitude_top:
  assumes a: "0 < a"
    and lo: "two_powi 1023 < round_magnitude a"
    and hi: "round_magnitude a < two_powi 1024"
  shows "\<exists>n. round_magnitude a = of_int n * two_powi 971 \<and>
             two_powi 52 \<le> of_int n \<and> of_int n < two_powi 53"
proof -
  define f where "f = floor_log2 a"
  define e where "e = max f (- 1022)"
  define u where "u = two_powi (e - 52)"
  define n where "n = round_half_even (a / u)"
  have u: "0 < u" by (simp add: u_def two_powi_pos)
  have uu: "ulp_of a = u" by (simp add: ulp_of_def u_def e_def f_def)
  have m: "round_magnitude a = of_int n * u"
    by (simp add: round_magnitude_def uu n_def)
  have p53: "two_powi (e + 1) = two_powi 53 * u"
  proof -
    have "two_powi (e + 1) = two_powi (53 + (e - 52))"
      by (rule arg_cong [where f = two_powi]) simp
    also have "\<dots> = two_powi 53 * two_powi (e - 52)"
      by (rule two_powi_add)
    finally show ?thesis by (simp only: u_def)
  qed
  have p52: "two_powi e = two_powi 52 * u"
  proof -
    have "two_powi e = two_powi (52 + (e - 52))"
      by (rule arg_cong [where f = two_powi]) simp
    also have "\<dots> = two_powi 52 * two_powi (e - 52)"
      by (rule two_powi_add)
    finally show ?thesis by (simp only: u_def)
  qed
  obtain z53 where z53: "two_powi 53 = of_int z53"
    using two_powi_int [of 53] by auto
  obtain z52 where z52: "two_powi 52 = of_int z52"
    using two_powi_int [of 52] by auto
  have "a < two_powi (f + 1)"
    unfolding f_def using a by (rule floor_log2_bounds(2))
  also have "\<dots> \<le> two_powi (e + 1)"
    by (rule two_powi_mono) (simp add: e_def)
  finally have "a / u \<le> of_int z53"
    using u by (simp add: p53 z53 pos_divide_le_eq)
  then have "n \<le> z53"
    unfolding n_def by (rule round_half_even_le)
  then have n_le: "of_int n \<le> two_powi 53"
    by (simp add: z53)
  have "round_magnitude a \<le> two_powi 53 * u"
    unfolding m using n_le u by (intro mult_right_mono) simp_all
  with lo have "two_powi 1023 < two_powi (e + 1)"
    by (simp only: p53)
  then have "1023 < e + 1"
    by (rule two_powi_less_cancel)
  then have e_lo: "1023 \<le> e" by simp
  then have ef: "e = f" by (simp add: e_def max_def split: if_splits)
  have "two_powi 52 * u \<le> a"
    using floor_log2_bounds(1) [OF a] by (simp add: p52 [symmetric] ef f_def)
  then have "of_int z52 \<le> a / u"
    using u by (simp add: z52 pos_le_divide_eq)
  then have "z52 \<le> n"
    unfolding n_def by (rule round_half_even_ge)
  then have n_ge: "two_powi 52 \<le> of_int n"
    by (simp add: z52)
  have "two_powi 52 * u \<le> round_magnitude a"
    unfolding m using n_ge u by (intro mult_right_mono) simp_all
  with hi have "two_powi e < two_powi 1024"
    by (simp only: p52)
  then have "e < 1024"
    by (rule two_powi_less_cancel)
  with e_lo have e: "e = 1023" by simp
  have u971: "u = two_powi 971" by (simp add: u_def e)
  have "of_int n * u < two_powi 53 * u"
    using hi p53 by (simp add: m e)
  then have n_lt: "(of_int n :: rat) < two_powi 53"
    using u by simp
  from m u971 n_ge n_lt show ?thesis by blast
qed

lemma round_magnitude_exact_top:
  assumes n1: "two_powi 52 \<le> of_int n" and n2: "of_int n < two_powi 53"
  shows "round_magnitude (of_int n * two_powi 971) = of_int n * two_powi 971"
proof -
  define c where "c = two_powi 971"
  define m :: rat where "m = of_int n * c"
  have c: "0 < c" by (simp add: c_def two_powi_pos)
  have "two_powi (52 + 971) = two_powi 52 * c"
    unfolding c_def by (rule two_powi_add)
  then have lo: "two_powi 1023 \<le> m"
    using n1 c by (simp add: m_def)
  have "two_powi (53 + 971) = two_powi 53 * c"
    unfolding c_def by (rule two_powi_add)
  then have hi: "m < two_powi (1023 + 1)"
    using n2 c by (simp add: m_def)
  have "floor_log2 m = 1023"
    using lo hi by (rule floor_log2_eqI)
  then have u: "ulp_of m = c"
    by (simp add: ulp_of_def c_def)
  have "m / c = of_int n"
    using c by (simp add: m_def)
  then have "round_half_even (m / c) = n"
    by (simp only: round_half_even_of_int)
  then have "round_magnitude m = of_int n * c"
    by (simp only: round_magnitude_def u)
  then have "round_magnitude m = m"
    by (simp only: m_def)
  then show ?thesis
    by (simp add: m_def c_def)
qed

lemma round_magnitude_decimal_finite:
  assumes a: "0 < a"
    and fin: "round_magnitude a < two_powi 1024"
    and k: "round_half_even (round_magnitude a * 100) \<noteq> 0"
  shows "round_magnitude (of_int (round_half_even (round_magnitude a * 100)) / 100)
           < two_powi 1024"
proof -
  define m where "m = round_magnitude a"
  define k where "k = round_half_even (m * 100)"
  define r :: rat where "r = of_int k / 100"
  define P where "P = two_powi 1023"
  have m0: "0 \<le> m"
    using a by (simp add: m_def round_magnitude_nonneg)
  have "0 \<le> k"
    using m0 by (simp add: k_def round_half_even_nonneg)
  with k have k1: "1 \<le> k" by (simp add: k_def m_def)
  have P: "two_powi 1024 = 2 * P"
  proof -
    have "two_powi (1 + 1023) = two_powi 1 * two_powi 1023"
      by (rule two_powi_add)
    then show ?thesis by (simp add: P_def two_powi_def [of 1])
  qed
  have P1: "1 \<le> P"
  proof -
    have "two_powi 0 \<le> two_powi 1023" by (rule two_powi_mono) simp
    then show ?thesis by (simp add: P_def two_powi_def [of 0])
  qed
  have goal: "round_magnitude r < 2 * P"
  proof (cases "m \<le> P")
    case True
    have "\<bar>of_int k - m * 100\<bar> \<le> 1 / 2"
      unfolding k_def by (rule round_half_even_error)
    then have "of_int k \<le> m * 100 + 1 / 2"
      by linarith
    then have r_le: "r \<le> m + 1 / 200"
      by (simp add: r_def)
    have "(1::rat) \<le> of_int k"
      using k1 by simp
    then have r_ge: "1 / 100 \<le> r"
      by (simp add: r_def)
    have "two_powi (- 1022) \<le> two_powi (- 7)"
      by (rule two_powi_mono) simp
    also have "\<dots> \<le> 1 / 100"
      by (simp add: two_powi_def power_int_minus)
    finally have normal: "two_powi (- 1022) \<le> r"
      using r_ge by simp
    have "two_powi (- 53) \<le> two_powi (- 1)"
      by (rule two_powi_mono) simp
    then have eps: "two_powi (- 53) \<le> 1 / 2"
      by (simp add: two_powi_def [of "- 1"])
    have "\<bar>round_magnitude r - r\<bar> \<le> r * two_powi (- 53)"
      using normal by (rule round_magnitude_relative)
    also have "\<dots> \<le> r * (1 / 2)"
      using eps r_ge by (intro mult_left_mono) simp_all
    finally have "round_magnitude r \<le> r + r / 2"
      by linarith
    with r_le True P1 show ?thesis
      by linarith
  next
    case False
    then have "two_powi 1023 < round_magnitude a"
      by (simp add: m_def P_def)
    from round_magnitude_top [OF a this fin]
    obtain n where n: "m = of_int n * two_powi 971"
      "two_powi 52 \<le> of_int n" "of_int n < two_powi 53"
      unfolding m_def by blast
    obtain z where z: "two_powi 971 = of_int z"
      using two_powi_int [of 971] by auto
    have "m * 100 = of_int (n * z * 100)"
      by (simp add: n(1) z)
    then have "k = n * z * 100"
      unfolding k_def by (simp only: round_half_even_of_int)
    then have "r = m"
      by (simp add: r_def n(1) z)
    moreover have "round_magnitude m = m"
      unfolding n(1) using n(2,3) by (rule round_magnitude_exact_top)
    ultimately show ?thesis
      using fin by (simp add: P m_def)
  qed
  then show ?thesis
    by (simp add: P r_def k_def m_def)
qed

lemma round_to_double_pos:
  assumes "0 < x"
  shows "round_to_double x = PosInf \<and> two_powi 1024 \<le> round_magnitude x \<or>
         round_to_double x = Finite (round_magnitude x) \<and> round_magnitude x < two_powi 1024"
  using assms by (auto simp add: round_to_double_def Let_def)

lemma round_to_double_neg:
  assumes "x < 0"
  shows "round_to_double x = NegInf \<and> two_powi 1024 \<le> round_magnitude (- x) \<or>
         round_to_double x = NegZero \<and> round_magnitude (- x) = 0 \<or>
         round_to_double x = Finite (- round_magnitude (- x)) \<and>
           round_magnitude (- x) < two_powi 1024 \<and> round_magnitude (- x) \<noteq> 0"
  using assms by (auto simp add: round_to_double_def Let_def)

lemma float_round_2:
  "float_round (Finite a) 2 =
     (if round_half_even (\<bar>a\<bar> * 100) = 0 then Inr (if a < 0 then NegZero else Finite 0)
      else (case round_to_double
                  (if a < 0 then - (of_int (round_half_even (\<bar>a\<bar> * 100)) / 100)
                   else of_int (round_half_even (\<bar>a\<bar> * 100)) / 100) of
              PosInf \<Rightarrow> Inl OverflowError
            | NegInf \<Rightarrow> Inl OverflowError
            | y \<Rightarrow> Inr y))"
  by (simp add: float_round_def Let_def)

lemma float_round_of_double:
  assumes "round_to_double x = Finite y"
  shows "\<exists>v. float_round (Finite y) 2 = Inr v"
proof -
  define k where "k = round_half_even (\<bar>y\<bar> * 100)"
  define r :: rat where "r = of_int k / 100"
  show ?thesis
  proof (cases "k = 0")
    case True
    then show ?thesis by (simp add: float_round_2 k_def)
  next
    case False
    have k0: "0 \<le> k" by (simp add: k_def round_half_even_nonneg)
    with False have r: "0 < r" by (simp add: r_def)
    have y0: "y \<noteq> 0"
      using False by (auto simp add: k_def round_half_even_def)
    have x0: "x \<noteq> 0"
      using assms y0 by (auto simp add: round_to_double_def)
    have fin: "\<bar>y\<bar> = round_magnitude \<bar>x\<bar> \<and> round_magnitude \<bar>x\<bar> < two_powi 1024 \<and> (y < 0) = (x < 0)"
    proof (cases "0 < x")
      case True
      with round_to_double_pos [OF True] assms round_magnitude_nonneg [of x]
      show ?thesis by auto
    next
      case False
      with x0 have neg: "x < 0" by simp
      have "0 \<le> round_magnitude (- x)"
        using neg by (intro round_magnitude_nonneg) simp
      with round_to_double_neg [OF neg] assms neg
      show ?thesis by auto
    qed
    have "round_magnitude (of_int (round_half_even (round_magnitude \<bar>x\<bar> * 100)) / 100)
            < two_powi 1024"
      using x0 fin False
      by (intro round_magnitude_decimal_finite) (simp_all add: k_def)
    then have rm: "round_magnitude r < two_powi 1024"
      using fin by (simp add: r_def k_def)
    show ?thesis
    proof (cases "y < 0")
      case True
      have "- r < 0" using r by simp
      from round_to_double_neg [OF this] rm
      show ?thesis
        using True False by (auto simp add: float_round_2 k_def r_def)
    next
      case False
      from round_to_double_pos [OF r] rm
      show ?thesis
        using False \<open>k \<noteq> 0\<close> by (auto simp add: float_round_2 k_def r_def)
    qed
  qed
qed

lemma float_round_total_special:
  "float_round NegZero n = Inr NegZero" "float_round PosInf n = Inr PosInf"
  "float_round NegInf n = Inr NegInf" "float_round NaN n = Inr NaN"
  by (simp_all add: float_round_def)

lemma float_mul_cases:
  "float_mul x y = NaN \<or> float_mul x y = PosInf \<or> float_mul x y = NegInf \<or>
   float_mul x y = NegZero \<or> float_mul x y = Finite 0 \<or>
   (\<exists>z. float_mul x y = round_to_double z)"
  by (auto simp add: float_mul_def split: pyfloat.splits)

lemma min_strike_value_total: "\<exists>v. min_strike_value last_price = Inr v"
proof -
  have z: "\<exists>v. float_round (Finite 0) 2 = Inr v"
    by (simp add: float_round_2 round_half_even_def)
  have "\<exists>v. float_round (round_to_double z) 2 = Inr v" for z
  proof (cases "round_to_double z")
    case (Finite y)
    then show ?thesis using float_round_of_double [of z y] by simp
  qed (simp_all add: float_round_total_special)
  with z float_mul_cases [of last_price float_literal_1_02] show ?thesis
    unfolding min_strike_value_def
    by (auto simp add: float_round_total_special)
qed

lemma min_strike_is_str:
  "\<exists>v. min_strike_value last_price = Inr v \<and> min_strike last_price = Inr (PyStr (float_str v))"
  using min_strike_value_total [of last_price] by (auto simp add: min_strike_def)

lemma round_magnitude_eval:
  assumes "two_powi e \<le> a" "a < two_powi (e + 1)" "- 1022 \<le> e"
  shows "round_magnitude a =
           of_int (round_half_even (a / two_powi (e - 52))) * two_powi (e - 52)"
proof -
  have "floor_log2 a = e"
    using assms(1,2) by (rule floor_log2_eqI)
  then have "ulp_of a = two_powi (e - 52)"
    using assms(3) by (simp add: ulp_of_def)
  then show ?thesis
    by (simp add: round_magnitude_def)
qed

lemma round_magnitude_upper:
  assumes "two_powi (- 1022) \<le> a"
  shows "round_magnitude a \<le> a + a * two_powi (- 53)"
  using round_magnitude_relative [OF assms] by linarith

lemma round_magnitude_lower:
  assumes "two_powi (- 1022) \<le> a"
  shows "a - a * two_powi (- 53) \<le> round_magnitude a"
  using round_magnitude_relative [OF assms] by linarith

lemma two_powi_53_small: "two_powi (- 53) \<le> 1 / 2"
proof -
  have "two_powi (- 53) \<le> two_powi (- 1)"
    by (rule two_powi_mono) simp
  then show ?thesis
    by (simp add: two_powi_def [of "- 1"])
qed

lemma round_magnitude_finite:
  assumes "two_powi (- 1022) \<le> a" "a \<le> two_powi 1022"
  shows "round_magnitude a < two_powi 1024"
proof -
  have a: "0 < a"
    using two_powi_pos assms(1) by (rule less_le_trans)
  have "a * two_powi (- 53) \<le> a * (1 / 2)"
    using a two_powi_53_small by (intro mult_left_mono) simp_all
  with round_magnitude_upper [OF assms(1)] a have "round_magnitude a \<le> 2 * a"
    by linarith
  also have "\<dots> \<le> two_powi 1 * two_powi 1022"
    using assms(2) by (simp add: two_powi_def [of 1])
  also have "\<dots> = two_powi (1 + 1022)"
    by (rule two_powi_add [symmetric])
  also have "\<dots> < two_powi 1024"
  proof -
    have "two_powi (1023 + 1) = two_powi 1023 * two_powi 1"
      by (rule two_powi_add)
    then have "two_powi 1024 = 2 * two_powi 1023"
      by (simp add: two_powi_def [of 1])
    then show ?thesis
      using two_powi_pos [of 1023] by simp
  qed
  finally show ?thesis .
qed

lemma round_to_double_eval:
  assumes "two_powi e \<le> x" "x < two_powi (e + 1)" "- 1022 \<le> e" "e < 1022"
  shows "round_to_double x =
           Finite (of_int (round_half_even (x / two_powi (e - 52))) * two_powi (e - 52))"
proof -
  have x: "0 < x"
    using two_powi_pos assms(1) by (rule less_le_trans)
  have n: "two_powi (- 1022) \<le> x"
    using two_powi_mono [OF assms(3)] assms(1) by (rule order_trans)
  have "x \<le> two_powi 1022"
    using assms(2) two_powi_mono [of "e + 1" 1022] assms(4) by simp
  with n have "round_magnitude x < two_powi 1024"
    by (rule round_magnitude_finite)
  with round_to_double_pos [OF x] have "round_to_double x = Finite (round_magnitude x)"
    by auto
  then show ?thesis
    by (simp only: round_magnitude_eval [OF assms(1,2,3)])
qed

lemma round_half_even_eqI:
  assumes "of_int n - 1 / 2 < x" "x < of_int n + 1 / 2"
  shows "round_half_even x = n"
proof -
  have "\<bar>of_int (round_half_even x) - x\<bar> \<le> 1 / 2"
    by (rule round_half_even_error)
  with assms have "\<bar>(of_int (round_half_even x) :: rat) - of_int n\<bar> < 1"
    by linarith
  then have "\<bar>round_half_even x - n\<bar> < 1"
    by (simp flip: of_int_diff of_int_abs)
  then show ?thesis by simp
qed

lemma round_half_even_tie:
  assumes "even n"
  shows "round_half_even (of_int n + 1 / 2) = n"
proof -
  have "\<lfloor>(of_int n :: rat) + 1 / 2\<rfloor> = n"
    by (rule floor_unique) simp_all
  then show ?thesis
    using assms by (simp add: round_half_even_def Let_def)
qed

lemma float_literal_1_02_eq:
  "float_literal_1_02 = Finite (2296835809958953 / 2251799813685248)"
proof -
  have "round_to_double (102 / 100) =
          Finite (of_int (round_half_even (102 / 100 / two_powi (0 - 52))) * two_powi (0 - 52))"
    by (rule round_to_double_eval) (simp_all add: two_powi_def)
  moreover have "round_half_even (102 / 100 / two_powi (0 - 52)) = 4593671619917906"
    by (rule round_half_even_eqI) (simp_all add: two_powi_def power_int_minus)
  ultimately show ?thesis
    by (simp add: float_literal_1_02_def two_powi_def power_int_minus)
qed

lemma float_mul_finite:
  assumes "a \<noteq> 0"
  shows "float_mul (Finite a) float_literal_1_02 =
           round_to_double (a * (2296835809958953 / 2251799813685248))"
  using assms
  by (simp add: float_mul_def float_literal_1_02_eq is_inf_def is_zero_def)

lemma min_strike_value_zero: "min_strike_value (Finite 0) = Inr (Finite 0)"
  by (simp add: min_strike_value_def float_mul_def float_literal_1_02_eq is_inf_def
      is_zero_def sign_bit_def float_round_2 round_half_even_def)

lemma min_strike_zero: "min_strike (Finite 0) = Inr (PyStr ''0.0'')"
  by (simp add: min_strike_def min_strike_value_zero float_str_def)

lemma min_strike_value_256th: "min_strike_value (Finite (1 / 256)) = Inr (Finite 0)"
proof -
  define x :: rat where "x = 1 / 256 * (2296835809958953 / 2251799813685248)"
  have "round_to_double x =
          Finite (of_int (round_half_even (x / two_powi (- 8 - 52))) * two_powi (- 8 - 52))"
    by (rule round_to_double_eval) (simp_all add: x_def two_powi_def power_int_minus)
  moreover have "round_half_even (x / two_powi (- 8 - 52)) = 4593671619917906"
    by (rule round_half_even_eqI) (simp_all add: x_def two_powi_def power_int_minus)
  ultimately have y: "round_to_double x = Finite x"
    by (simp add: x_def two_powi_def power_int_minus)
  have "round_half_even (\<bar>x\<bar> * 100) = 0"
    by (rule round_half_even_eqI) (simp_all add: x_def)
  then have "float_round (Finite x) 2 = Inr (Finite 0)"
    by (simp add: float_round_2 x_def)
  moreover have "float_mul (Finite (1 / 256)) float_literal_1_02 = round_to_double x"
    unfolding x_def by (rule float_mul_finite) simp
  ultimately show ?thesis
    by (simp only: min_strike_value_def y)
qed

lemma min_strike_256th: "min_strike (Finite (1 / 256)) = Inr (PyStr ''0.0'')"
  by (simp add: min_strike_def min_strike_value_256th float_str_def)

lemma min_strike_value_5_4:
  "min_strike_value (Finite (5 / 4)) = Inr (Finite (2859785763380265 / 2251799813685248))"
proof -
  define x :: rat where "x = 5 / 4 * (2296835809958953 / 2251799813685248)"
  define y :: rat where "y = 2871044762448691 / 2251799813685248"
  have "round_to_double x =
          Finite (of_int (round_half_even (x / two_powi (0 - 52))) * two_powi (0 - 52))"
    by (rule round_to_double_eval) (simp_all add: x_def two_powi_def)
  moreover have "round_half_even (x / two_powi (0 - 52)) = 5742089524897382"
  proof -
    have "x / two_powi (0 - 52) = of_int 5742089524897382 + 1 / 2"
      by (simp add: x_def two_powi_def power_int_minus)
    moreover have "round_half_even (of_int 5742089524897382 + 1 / 2) = 5742089524897382"
      by (rule round_half_even_tie) simp
    ultimately show ?thesis by (simp only:)
  qed
  ultimately have xy: "round_to_double x = Finite y"
    by (simp add: y_def two_powi_def power_int_minus)
  have k: "round_half_even (\<bar>y\<bar> * 100) = 127"
    by (rule round_half_even_eqI) (simp_all add: y_def)
  have "round_to_double (127 / 100) =
          Finite (of_int (round_half_even (127 / 100 / two_powi (0 - 52))) * two_powi (0 - 52))"
    by (rule round_to_double_eval) (simp_all add: two_powi_def)
  moreover have "round_half_even (127 / 100 / two_powi (0 - 52)) = 5719571526760530"
    by (rule round_half_even_eqI) (simp_all add: two_powi_def power_int_minus)
  ultimately have r: "round_to_double (127 / 100) = Finite (2859785763380265 / 2251799813685248)"
    by (simp add: two_powi_def power_int_minus)
  have "float_round (Finite y) 2 = Inr (Finite (2859785763380265 / 2251799813685248))"
    using k r by (simp add: float_round_2 y_def)
  moreover have "float_mul (Finite (5 / 4)) float_literal_1_02 = round_to_double x"
    unfolding x_def by (rule float_mul_finite) simp
  ultimately show ?thesis
    by (simp only: min_strike_value_def xy)
qed

lemma min_strike_value_positive_price:
  assumes a: "0 < a"
  shows "min_strike_value (Finite a) =
     (let m = round_magnitude (a * (2296835809958953 / 2251799813685248));
          k = round_half_even (m * 100)
      in if two_powi 1024 \<le> m then Inr PosInf
         else if k = 0 then Inr (Finite 0)
         else Inr (Finite (round_magnitude (of_int k / 100))))"
proof -
  define x where "x = a * (2296835809958953 / 2251799813685248)"
  define m where "m = round_magnitude x"
  define k where "k = round_half_even (m * 100)"
  have x: "0 < x" using a by (simp add: x_def)
  have m0: "0 \<le> m" using x by (simp add: m_def round_magnitude_nonneg)
  have k0: "0 \<le> k" using m0 by (simp add: k_def round_half_even_nonneg)
  have mul: "float_mul (Finite a) float_literal_1_02 = round_to_double x"
    unfolding x_def using a by (intro float_mul_finite) simp
  have "float_round (round_to_double x) 2 =
          (if two_powi 1024 \<le> m then Inr PosInf
           else if k = 0 then Inr (Finite 0)
           else Inr (Finite (round_magnitude (of_int k / 100))))"
  proof (cases "two_powi 1024 \<le> m")
    case True
    with round_to_double_pos [OF x] have "round_to_double x = PosInf"
      by (auto simp add: m_def)
    with True show ?thesis
      by (simp add: float_round_total_special)
  next
    case False
    with round_to_double_pos [OF x] have y: "round_to_double x = Finite m"
      by (auto simp add: m_def)
    show ?thesis
    proof (cases "k = 0")
      case True
      with False m0 show ?thesis
        by (simp add: y float_round_2 k_def)
    next
      case nz: False
      with k0 have r: "0 < (of_int k :: rat) / 100" by simp
      have "round_magnitude (of_int (round_half_even (round_magnitude x * 100)) / 100)
              < two_powi 1024"
        using x False nz by (intro round_magnitude_decimal_finite) (simp_all add: m_def k_def)
      then have "round_magnitude (of_int k / 100) < two_powi 1024"
        by (simp add: k_def m_def)
      with round_to_double_pos [OF r]
      have "round_to_double (of_int k / 100) = Finite (round_magnitude (of_int k / 100))"
        by auto
      with False nz m0 show ?thesis
        by (simp add: y float_round_2 k_def)
    qed
  qed
  then show ?thesis
    by (simp add: min_strike_value_def mul Let_def m_def k_def x_def)
qed

lemma two_powi_53_tiny: "two_powi (- 53) \<le> 1 / 1024"
proof -
  have "two_powi (- 53) \<le> two_powi (- 10)"
    by (rule two_powi_mono) simp
  then show ?thesis
    by (simp add: two_powi_def [of "- 10"] power_int_minus)
qed

lemma two_powi_1022_tiny: "two_powi (- 1022) \<le> 1 / 1024"
proof -
  have "two_powi (- 1022) \<le> two_powi (- 10)"
    by (rule two_powi_mono) simp
  then show ?thesis
    by (simp add: two_powi_def [of "- 10"] power_int_minus)
qed

lemma round_magnitude_ge_half:
  assumes "1 / 1024 \<le> a"
  shows "a * (1023 / 1024) \<le> round_magnitude a"
proof -
  have n: "two_powi (- 1022) \<le> a"
    using two_powi_1022_tiny assms by (rule order_trans)
  have "a * two_powi (- 53) \<le> a * (1 / 1024)"
    using assms two_powi_53_tiny by (intro mult_left_mono) simp_all
  with round_magnitude_lower [OF n] show ?thesis
    by linarith
qed

lemma round_half_even_pos:
  assumes "1 / 2 < x"
  shows "1 \<le> round_half_even x"
proof -
  have "\<bar>of_int (round_half_even x) - x\<bar> \<le> 1 / 2"
    by (rule round_half_even_error)
  with assms have "(0::rat) < of_int (round_half_even x)"
    by linarith
  then show ?thesis by simp
qed

lemma min_strike_value_sign:
  assumes a: "0 < a"
  shows "\<exists>v. min_strike_value (Finite a) = Inr v \<and> float_ge v (Finite 0) \<and>
             (1 / 200 \<le> a \<longrightarrow> float_less (Finite 0) v)"
proof -
  define x where "x = a * (2296835809958953 / 2251799813685248)"
  define m where "m = round_magnitude x"
  define k where "k = round_half_even (m * 100)"
  have x: "0 < x" using a by (simp add: x_def)
  have m0: "0 \<le> m" using x by (simp add: m_def round_magnitude_nonneg)
  have k0: "0 \<le> k" using m0 by (simp add: k_def round_half_even_nonneg)
  have v: "min_strike_value (Finite a) =
     (if two_powi 1024 \<le> m then Inr PosInf
      else if k = 0 then Inr (Finite 0)
      else Inr (Finite (round_magnitude (of_int k / 100))))"
    using min_strike_value_positive_price [OF a]
    by (simp add: Let_def m_def k_def x_def)
  have pos: "0 < round_magnitude (of_int k / 100)" if "k \<noteq> 0"
  proof -
    from that k0 have "1 \<le> k" by simp
    then have "(1::rat) \<le> of_int k" by simp
    then have r: "(1::rat) / 1024 \<le> of_int k / 100" by simp
    from round_magnitude_ge_half [OF r] r show ?thesis by linarith
  qed
  have k1: "k \<noteq> 0" if "1 / 200 \<le> a" "\<not> two_powi 1024 \<le> m"
  proof -
    have xl: "51 / 10000 \<le> x"
      using that(1) by (simp add: x_def)
    then have "1 / 1024 \<le> x" by simp
    from round_magnitude_ge_half [OF this] xl have "1 / 2 < m * 100"
      by (simp add: m_def)
    then have "1 \<le> k"
      unfolding k_def by (rule round_half_even_pos)
    then show ?thesis by simp
  qed
  show ?thesis
    using v pos k1
    by (auto simp add: float_ge_def float_less_def float_key_def)
qed

lemma two_powi_53_val: "two_powi (- 53) = 1 / 9007199254740992"
  by (simp add: two_powi_def power_int_minus)

lemma two_powi_52_val: "two_powi (- 52) = 1 / 4503599627370496"
  by (simp add: two_powi_def power_int_minus)

lemma two_powi_50_val: "two_powi (- 50) = 1 / 1125899906842624"
  by (simp add: two_powi_def power_int_minus)

lemma ulp_of_le:
  assumes a: "0 < a"
  shows "ulp_of a \<le> a * two_powi (- 52) + two_powi (- 1074)"
proof (cases "- 1022 \<le> floor_log2 a")
  case True
  then have "two_powi (- 1022) \<le> two_powi (floor_log2 a)"
    by (rule two_powi_mono)
  also have "\<dots> \<le> a"
    using a by (rule floor_log2_bounds(1))
  finally have "ulp_of a \<le> a * two_powi (- 52)"
    by (rule ulp_of_normal)
  with two_powi_pos [of "- 1074"] show ?thesis by linarith
next
  case False
  then have "ulp_of a = two_powi (- 1074)"
    by (simp add: ulp_of_def max_def)
  moreover have "0 \<le> a * two_powi (- 52)"
    using a two_powi_pos [of "- 52"] by simp
  ultimately show ?thesis by linarith
qed

lemma round_magnitude_error_any:
  assumes a: "0 < a"
  shows "\<bar>round_magnitude a - a\<bar> \<le> a / 9007199254740992 + 1 / 18014398509481984"
proof -
  have "two_powi (- 1074) \<le> two_powi (- 53)"
    by (rule two_powi_mono) simp
  then have "two_powi (- 1074) \<le> 1 / 9007199254740992"
    by (simp only: two_powi_53_val)
  with ulp_of_le [OF a] have "ulp_of a \<le> a / 4503599627370496 + 1 / 9007199254740992"
    by (simp add: two_powi_52_val)
  with round_magnitude_error [of a] show ?thesis
    by linarith
qed

lemma two_powi_1024_large:
  assumes "a \<le> two_powi 1000"
  shows "4 * a + 1 < two_powi 1024"
proof -
  have "two_powi (24 + 1000) = two_powi 24 * two_powi 1000"
    by (rule two_powi_add)
  then have e: "two_powi 1024 = 16777216 * two_powi 1000"
    by (simp add: two_powi_def [of 24])
  have "two_powi 0 \<le> two_powi 1000"
    by (rule two_powi_mono) simp
  then have "1 \<le> two_powi 1000"
    by (simp add: two_powi_def [of 0])
  with assms show ?thesis
    unfolding e by linarith
qed

lemma min_strike_value_close:
  assumes a: "0 < a" and le: "a \<le> two_powi 1000"
  shows "\<exists>v. min_strike_value (Finite a) = Inr (Finite v) \<and>
             \<bar>v - a * (102 / 100)\<bar> \<le> 1 / 200 + (a + 1) * two_powi (- 50)"
proof -
  define x where "x = a * (2296835809958953 / 2251799813685248)"
  define m where "m = round_magnitude x"
  define k where "k = round_half_even (m * 100)"
  define r :: rat where "r = of_int k / 100"
  define v where "v = (if k = 0 then 0 else round_magnitude r)"
  have x: "0 < x" using a by (simp add: x_def)
  have m0: "0 \<le> m" using x by (simp add: m_def round_magnitude_nonneg)
  have k0: "0 \<le> k" using m0 by (simp add: k_def round_half_even_nonneg)
  have xa: "x = a * (2296835809958953 / 2251799813685248)"
    by (simp add: x_def)
  have mx: "\<bar>m - x\<bar> \<le> x / 9007199254740992 + 1 / 18014398509481984"
    unfolding m_def using x by (rule round_magnitude_error_any)
  have "m \<le> 4 * a + 1"
    using mx xa a by linarith
  also have "\<dots> < two_powi 1024"
    using le by (rule two_powi_1024_large)
  finally have fin: "\<not> two_powi 1024 \<le> m" by simp
  have val: "min_strike_value (Finite a) = Inr (Finite v)"
    using min_strike_value_positive_price [OF a] fin
    by (simp add: Let_def m_def k_def x_def v_def r_def)
  have km: "\<bar>of_int k - m * 100\<bar> \<le> 1 / 2"
    unfolding k_def by (rule round_half_even_error)
  have r0: "0 \<le> r" using k0 by (simp add: r_def)
  have vr: "\<bar>v - r\<bar> \<le> r / 9007199254740992"
  proof (cases "k = 0")
    case True
    then show ?thesis by (simp add: v_def r_def)
  next
    case False
    with k0 have "1 \<le> k" by simp
    then have "(1::rat) \<le> of_int k" by simp
    then have "1 / 100 \<le> r" by (simp add: r_def)
    with two_powi_1022_tiny have "two_powi (- 1022) \<le> r" by linarith
    from round_magnitude_relative [OF this] False show ?thesis
      by (simp add: v_def two_powi_53_val)
  qed
  have rk: "r * 100 = of_int k" by (simp add: r_def)
  have x1: "x \<le> a * (102 / 100) + a / 9007199254740992" "a * (102 / 100) \<le> x"
    using a by (simp_all add: xa)
  have m1: "m \<le> x + x / 9007199254740992 + 1 / 18014398509481984"
    "x - x / 9007199254740992 - 1 / 18014398509481984 \<le> m"
    using mx by linarith+
  have r1: "r \<le> m + 1 / 200" "m - 1 / 200 \<le> r"
    using km rk by linarith+
  have v1: "v \<le> r + r / 9007199254740992" "r - r / 9007199254740992 \<le> v"
    using vr by linarith+
  have x2: "x \<le> 2 * a"
    using x1(1) a by linarith
  have m2: "m \<le> 3 * a + 1"
    using m1(1) x2 a by linarith
  have r2: "r \<le> 3 * a + 2"
    using r1(1) m2 by linarith
  have up: "v - a * (102 / 100) \<le> 1 / 200 + (a / 1125899906842624 + 1 / 1125899906842624)"
    using v1(1) r1(1) m1(1) x1(1) x2 r2 a by linarith
  have dn: "- (1 / 200 + (a / 1125899906842624 + 1 / 1125899906842624)) \<le> v - a * (102 / 100)"
    using v1(2) r1(2) m1(2) x1(2) x2 r2 a by linarith
  have "\<bar>v - a * (102 / 100)\<bar> \<le> 1 / 200 + (a / 1125899906842624 + 1 / 1125899906842624)"
    using up dn by linarith
  then have "\<bar>v - a * (102 / 100)\<bar> \<le> 1 / 200 + (a + 1) * (1 / 1125899906842624)"
    by (simp add: add_divide_distrib)
  with val show ?thesis
    by (simp add: two_powi_50_val)
qed

subsection \<open>The string of the float nearest to 1.27\<close>

lemma floor_rat_numeral: "\<lfloor>numeral a / numeral b :: rat\<rfloor> = numeral a div numeral b"
  by (metis floor_divide_of_int_eq of_int_numeral)

lemma round_to_double_value:
  assumes "two_powi e \<le> x" "x < two_powi (e + 1)" "- 1022 \<le> e" "e < 1022"
    and "of_int n - 1 / 2 < x / two_powi (e - 52)" "x / two_powi (e - 52) < of_int n + 1 / 2"
  shows "round_to_double x = Finite (of_int n * two_powi (e - 52))"
proof -
  have "round_half_even (x / two_powi (e - 52)) = n"
    using assms(5,6) by (rule round_half_even_eqI)
  with round_to_double_eval [OF assms(1-4)] show ?thesis
    by simp
qed

lemma double_of_1: "round_to_double 1 = Finite 1"
  using round_to_double_value [where x = 1 and e = 0 and n = 4503599627370496]
  by (simp add: two_powi_def power_int_minus)

lemma double_of_2: "round_to_double 2 = Finite 2"
  using round_to_double_value [where x = 2 and e = 1 and n = 4503599627370496]
  by (simp add: two_powi_def power_int_minus)

lemma double_of_1_2:
  "round_to_double (12 / 10) = Finite (5404319552844595 / 4503599627370496)"
  using round_to_double_value [where x = "12 / 10" and e = 0 and n = 5404319552844595]
  by (simp add: two_powi_def power_int_minus)

lemma double_of_1_3:
  "round_to_double (13 / 10) = Finite (5854679515581645 / 4503599627370496)"
  using round_to_double_value [where x = "13 / 10" and e = 0 and n = 5854679515581645]
  by (simp add: two_powi_def power_int_minus)

lemma double_of_1_27:
  "round_to_double (127 / 100) = Finite (2859785763380265 / 2251799813685248)"
  using round_to_double_value [where x = "127 / 100" and e = 0 and n = 5719571526760530]
  by (simp add: two_powi_def power_int_minus)

lemma double_of_1_28:
  "round_to_double (128 / 100) = Finite (5764607523034235 / 4503599627370496)"
  using round_to_double_value [where x = "128 / 100" and e = 0 and n = 5764607523034235]
  by (simp add: two_powi_def power_int_minus)

lemma floor_log10_1_27: "floor_log10 (2859785763380265 / 2251799813685248) = 0"
  by code_simp

lemma shortest_step_1:
  "shortest (Suc f) (Suc 0) (2859785763380265 / 2251799813685248) 0 =
   shortest f (Suc (Suc 0)) (2859785763380265 / 2251799813685248) 0"
  by (simp add: Let_def floor_rat_numeral double_of_1 double_of_2)

lemma shortest_step_2:
  "shortest (Suc f) (Suc (Suc 0)) (2859785763380265 / 2251799813685248) 0 =
   shortest f (Suc (Suc (Suc 0))) (2859785763380265 / 2251799813685248) 0"
  using double_of_1_2 double_of_1_3
  by (simp add: Let_def floor_rat_numeral power_int_minus)

lemma shortest_step_3:
  "shortest (Suc f) (Suc (Suc (Suc 0))) (2859785763380265 / 2251799813685248) 0 = (127, - 2)"
  using double_of_1_27 double_of_1_28
  by (simp add: Let_def floor_rat_numeral power_int_minus)

lemma shortest_1_27:
  "shortest 16 (Suc 0) (2859785763380265 / 2251799813685248) 0 = (127, - 2)"
proof -
  have "(16::nat) = Suc (Suc (Suc 13))" by simp
  then show ?thesis
    by (simp only: shortest_step_1 shortest_step_2 shortest_step_3)
qed

lemma declen_127: "declen 127 = 3"
proof -
  have d0: "declen 0 = 0" by (subst declen.simps) simp
  have d1: "declen 1 = 1" by (subst declen.simps) (simp add: d0)
  have d12: "declen 12 = 2" by (subst declen.simps) (simp add: d1)
  show ?thesis by (subst declen.simps) (simp add: d12)
qed

lemma float_str_1_27: "float_str (Finite (2859785763380265 / 2251799813685248)) = ''1.27''"
proof -
  have z: "strip_zeros (127, - 2) = (127, - 2)"
    by (subst strip_zeros.simps) simp
  have d: "digits (Suc (Suc (Suc 0))) 127 = ''127''"
    by simp
  have "format_repr (2859785763380265 / 2251799813685248) = ''1.27''"
    by (simp add: format_repr_def floor_log10_1_27 shortest_1_27 z declen_127 d
        numeral_3_eq_3)
  then show ?thesis
    by (simp add: float_str_def)
qed

subsection \<open>The rounding, characterised\<close>

lemma round_half_even_tie_even:
  assumes "\<bar>of_int (round_half_even x) - x\<bar> = 1 / 2"
  shows "even (round_half_even x)"
proof -
  have f: "of_int \<lfloor>x\<rfloor> \<le> x" "x < of_int \<lfloor>x\<rfloor> + 1"
    by linarith+
  show ?thesis
  proof (cases "x - of_int \<lfloor>x\<rfloor> = 1 / 2")
    case True
    then show ?thesis
      by (simp add: round_half_even_def Let_def)
  next
    case False
    with assms f show ?thesis
      by (auto simp add: round_half_even_def Let_def split: if_splits)
  qed
qed

lemma min_strike_value_rounding:
  assumes a: "0 < a" and le: "a \<le> two_powi 1000"
  shows "\<exists>y k v. float_mul (Finite a) float_literal_1_02 = Finite y \<and>
           \<bar>of_int k - y * 100\<bar> \<le> 1 / 2 \<and>
           (\<bar>of_int k - y * 100\<bar> = 1 / 2 \<longrightarrow> even k) \<and>
           round_to_double (of_int k / 100) = Finite v \<and>
           min_strike_value (Finite a) = Inr (Finite v)"
proof -
  define x where "x = a * (2296835809958953 / 2251799813685248)"
  define m where "m = round_magnitude x"
  define k where "k = round_half_even (m * 100)"
  define v where "v = (if k = 0 then 0 else round_magnitude (of_int k / 100))"
  have x: "0 < x" using a by (simp add: x_def)
  have m0: "0 \<le> m" using x by (simp add: m_def round_magnitude_nonneg)
  have k0: "0 \<le> k" using m0 by (simp add: k_def round_half_even_nonneg)
  have mx: "\<bar>m - x\<bar> \<le> x / 9007199254740992 + 1 / 18014398509481984"
    unfolding m_def using x by (rule round_magnitude_error_any)
  have "x \<le> 2 * a"
    using a by (simp add: x_def)
  with mx a have "m \<le> 4 * a + 1"
    by linarith
  also have "\<dots> < two_powi 1024"
    using le by (rule two_powi_1024_large)
  finally have fin: "m < two_powi 1024" .
  have "float_mul (Finite a) float_literal_1_02 = round_to_double x"
    unfolding x_def using a by (intro float_mul_finite) simp
  moreover have "round_to_double x = Finite m"
    using round_to_double_pos [OF x] fin by (auto simp add: m_def)
  ultimately have mul: "float_mul (Finite a) float_literal_1_02 = Finite m"
    by simp
  have near: "\<bar>of_int k - m * 100\<bar> \<le> 1 / 2"
    unfolding k_def by (rule round_half_even_error)
  have tie: "\<bar>of_int k - m * 100\<bar> = 1 / 2 \<longrightarrow> even k"
    unfolding k_def using round_half_even_tie_even [of "m * 100"] by blast
  have conv: "round_to_double (of_int k / 100) = Finite v"
  proof (cases "k = 0")
    case True
    then show ?thesis by (simp add: v_def round_to_double_def)
  next
    case False
    with k0 have r: "0 < (of_int k :: rat) / 100" by simp
    have "round_magnitude (of_int (round_half_even (round_magnitude x * 100)) / 100)
            < two_powi 1024"
      using x fin False by (intro round_magnitude_decimal_finite) (simp_all add: m_def k_def)
    then have "round_magnitude (of_int k / 100) < two_powi 1024"
      by (simp add: k_def m_def)
    with round_to_double_pos [OF r] False show ?thesis
      by (auto simp add: v_def)
  qed
  have val: "min_strike_value (Finite a) = Inr (Finite v)"
    using min_strike_value_positive_price [OF a] fin
    by (simp add: Let_def m_def k_def x_def v_def)
  from mul near tie conv val show ?thesis by blast
qed

lemma float_mul_5_4:
  "float_mul (Finite (5 / 4)) float_literal_1_02 =
     Finite (2871044762448691 / 2251799813685248)"
proof -
  define x :: rat where "x = 5 / 4 * (2296835809958953 / 2251799813685248)"
  have "round_to_double x =
          Finite (of_int (round_half_even (x / two_powi (0 - 52))) * two_powi (0 - 52))"
    by (rule round_to_double_eval) (simp_all add: x_def two_powi_def)
  moreover have "round_half_even (x / two_powi (0 - 52)) = 5742089524897382"
  proof -
    have "x / two_powi (0 - 52) = of_int 5742089524897382 + 1 / 2"
      by (simp add: x_def two_powi_def power_int_minus)
    moreover have "round_half_even (of_int 5742089524897382 + 1 / 2) = 5742089524897382"
      by (rule round_half_even_tie) simp
    ultimately show ?thesis by (simp only:)
  qed
  ultimately have "round_to_double x = Finite (2871044762448691 / 2251799813685248)"
    by (simp add: two_powi_def power_int_minus)
  moreover have "float_mul (Finite (5 / 4)) float_literal_1_02 = round_to_double x"
    unfolding x_def by (rule float_mul_finite) simp
  ultimately show ?thesis by simp
qed

subsection \<open>The string at the last price 250\<close>















subsection \<open>The string at the last price -1\<close>












section \<open>The minimum strike\<close>



text \<open>
  C6, as the specification states it, at the last price 0: the computation does not fail,
  it returns the string \<open>0.0\<close>.
\<close>

theorem min_strike_of_zero_price:
  "float_ge (Finite 0) (Finite 0) \<and> min_strike (Finite 0) = Inr (PyStr ''0.0'')"
  by (simp add: min_strike_zero float_ge_def float_key_def)

text \<open>
  C6, amended: the computation validates nothing. For every last price, the prices at or
  below 0 included, it raises no \<open>InvalidPriceError\<close> (and no other exception) and
  returns a string.
\<close>

theorem min_strike_never_invalid_price:
  "min_strike last_price \<noteq> Inl InvalidPriceError \<and> (\<exists>s. min_strike last_price = Inr (PyStr s))"
  using min_strike_is_str [of last_price] by auto

text \<open>
  C7, as the specification states it, at the last price 1/256 = 0.00390625, which is
  greater than 0: the rounded value is 0, which is not greater than 0, and
  \<open>min_strike\<close> is the string \<open>0.0\<close>.
\<close>

theorem min_strike_of_small_price:
  "float_less (Finite 0) (Finite (1 / 256)) \<and>
   min_strike_value (Finite (1 / 256)) = Inr (Finite 0) \<and>
   \<not> float_less (Finite 0) (Finite 0) \<and>
   min_strike (Finite (1 / 256)) = Inr (PyStr ''0.0'')"
  by (simp add: min_strike_value_256th min_strike_256th float_less_def float_key_def)

text \<open>
  C7, amended: for every last price greater than 0 the float that \<open>min_strike\<close>
  renders is at least 0, and it is greater than 0 for every last price of at least 0.005.
\<close>

theorem min_strike_value_not_negative:
  assumes "float_less (Finite 0) last_price"
  shows "\<exists>v. min_strike_value last_price = Inr v \<and> float_ge v (Finite 0) \<and>
             (float_ge last_price (Finite (1 / 200)) \<longrightarrow> float_less (Finite 0) v)"
proof (cases last_price)
  case (Finite a)
  with assms have "0 < a"
    by (simp add: float_less_def float_key_def)
  from min_strike_value_sign [OF this] Finite show ?thesis
    by (auto simp add: float_ge_def float_key_def)
next
  case PosInf
  have "min_strike_value PosInf = Inr PosInf"
    by (simp add: min_strike_value_def float_mul_def float_literal_1_02_eq is_inf_def
        is_zero_def sign_bit_def float_round_total_special)
  with PosInf show ?thesis
    by (simp add: float_ge_def float_less_def float_key_def)
qed (use assms in \<open>simp_all add: float_less_def float_key_def\<close>)

theorem min_strike_value_not_negative_witness:
  "float_less (Finite 0) (Finite 250) \<and> float_ge (Finite 250) (Finite (1 / 200)) \<and>
   (\<exists>v. min_strike_value (Finite 250) = Inr v \<and> float_ge v (Finite 0) \<and>
        float_less (Finite 0) v)"
proof -
  have h: "float_less (Finite 0) (Finite 250)"
    by (simp add: float_less_def float_key_def)
  have g: "float_ge (Finite 250) (Finite (1 / 200))"
    by (simp add: float_ge_def float_key_def)
  from min_strike_value_not_negative [OF h] g h show ?thesis
    by auto
qed

text \<open>
  C3, as the specification states it, at the last price 1.25: the price times 1.02 is
  1.275, which rounds half-up to 1.28; the cell computes the float nearest to 1.27 and binds
  the string \<open>1.27\<close>, because the float product lies just below 1.275.
\<close>

theorem min_strike_of_1_25:
  "spec_compute_min_strike (5 / 4) = 32 / 25 \<and>
   min_strike_value (Finite (5 / 4)) = Inr (Finite (2859785763380265 / 2251799813685248)) \<and>
   min_strike (Finite (5 / 4)) = Inr (PyStr ''1.27'') \<and>
   (2859785763380265 / 2251799813685248 :: rat) < 32 / 25 - 1 / 101"
proof -
  have "\<lfloor>(5 / 4 * (102 / 100) * 100 + 1 / 2 :: rat)\<rfloor> = 128"
    by (rule floor_unique) simp_all
  then have "spec_compute_min_strike (5 / 4) = 32 / 25"
    by (simp add: spec_compute_min_strike_def round_half_up_2dp_def)
  then show ?thesis
    by (simp add: min_strike_value_5_4 min_strike_def float_str_1_27)
qed

text \<open>
  C3, amended: for every last price greater than 0 (and at most \<open>2 ^ 1000\<close>, so that
  the product is finite) \<open>min_strike\<close> is the string rendering of the float
  \<open>v\<close> computed thus: \<open>y\<close> is the float product of the last price and the
  float nearest to 1.02; \<open>k\<close> is the integer nearest to \<open>100 * y\<close>, the
  even one when two are equally near; \<open>v\<close> is the float nearest to
  \<open>k / 100\<close>. So the float product, not the exact decimal product, is rounded to
  the nearest cent, ties to even and not half-up, and \<open>v\<close> lies within 0.005 of the
  last price times 1.02 up to the floating-point error \<open>(last_price + 1) * 2 ^ - 50\<close>.
\<close>

theorem min_strike_rounds_float_product:
  assumes "0 < a" and "a \<le> two_powi 1000"
  shows "\<exists>y k v. float_mul (Finite a) float_literal_1_02 = Finite y \<and>
           \<bar>of_int k - y * 100\<bar> \<le> 1 / 2 \<and>
           (\<bar>of_int k - y * 100\<bar> = 1 / 2 \<longrightarrow> even k) \<and>
           round_to_double (of_int k / 100) = Finite v \<and>
           min_strike_value (Finite a) = Inr (Finite v) \<and>
           min_strike (Finite a) = Inr (PyStr (float_str (Finite v))) \<and>
           \<bar>v - a * (102 / 100)\<bar> \<le> 1 / 200 + (a + 1) * two_powi (- 50)"
proof -
  from min_strike_value_rounding [OF assms] obtain y k v where
    r: "float_mul (Finite a) float_literal_1_02 = Finite y"
      "\<bar>of_int k - y * 100\<bar> \<le> 1 / 2"
      "\<bar>of_int k - y * 100\<bar> = 1 / 2 \<longrightarrow> even k"
      "round_to_double (of_int k / 100) = Finite v"
      "min_strike_value (Finite a) = Inr (Finite v)"
    by blast
  from min_strike_value_close [OF assms] r(5)
  have b: "\<bar>v - a * (102 / 100)\<bar> \<le> 1 / 200 + (a + 1) * two_powi (- 50)"
    by auto
  from r(5) have "min_strike (Finite a) = Inr (PyStr (float_str (Finite v)))"
    by (simp add: min_strike_def)
  with r b show ?thesis by blast
qed

text \<open>
  At the last price 1.25 the theorem alone fixes the result: the float product is
  2871044762448691 / 2^51, just below 1.275, so \<open>k\<close> is 127 and \<open>v\<close> is the
  float nearest to 1.27.
\<close>

theorem min_strike_rounds_float_product_witness:
  "(0::rat) < 5 / 4 \<and> 5 / 4 \<le> two_powi 1000 \<and>
   min_strike_value (Finite (5 / 4)) = Inr (Finite (2859785763380265 / 2251799813685248)) \<and>
   min_strike (Finite (5 / 4)) =
     Inr (PyStr (float_str (Finite (2859785763380265 / 2251799813685248))))"
proof -
  have p: "(0::rat) < 5 / 4" by simp
  have "two_powi 1 \<le> two_powi 1000"
    by (rule two_powi_mono) simp
  then have q: "5 / 4 \<le> two_powi 1000"
    by (simp add: two_powi_def [of 1])
  from min_strike_rounds_float_product [OF p q] obtain y k v where
    y: "float_mul (Finite (5 / 4)) float_literal_1_02 = Finite y"
    and k: "\<bar>of_int k - y * 100\<bar> \<le> 1 / 2"
    and v: "round_to_double (of_int k / 100) = Finite v"
    and m: "min_strike_value (Finite (5 / 4)) = Inr (Finite v)"
    and s: "min_strike (Finite (5 / 4)) = Inr (PyStr (float_str (Finite v)))"
    by blast
  from y have "y = 2871044762448691 / 2251799813685248"
    by (simp add: float_mul_5_4)
  with k have "(126::rat) < of_int k" "of_int k < (128::rat)"
    by linarith+
  then have "126 < k" "k < 128"
    by linarith+
  then have "k = 127" by simp
  with v have "v = 2859785763380265 / 2251799813685248"
    using double_of_1_27 by simp
  with m s p q show ?thesis
    by simp
qed

section \<open>No order in any run\<close>

lemma cell_3_orders:
  "filter is_order_event (events (fst (cell_3 w))) = filter is_order_event (events w)"
  by (simp add: cell_3_def trade_client_get_account_def log_event_def)

lemma cell_4_orders:
  "filter is_order_event (events (fst (cell_4 w))) = filter is_order_event (events w)"
  by (simp add: cell_4_result)

lemma cell_5_orders:
  "filter is_order_event (events (fst (cell_5 w))) = filter is_order_event (events w)"
  by (simp add: cell_5_def trade_client_get_all_assets_def trade_client_get_asset_def
      log_event_def Let_def split: option.splits)

lemma cell_6_orders:
  "filter is_order_event (events (fst (cell_6 w))) = filter is_order_event (events w)"
  by (simp add: cell_6_def trade_client_get_all_positions_def log_event_def)

lemma cell_7_window_events: "events (fst (cell_7_window w)) = events w"
  by (simp add: cell_7_window_def datetime_now_date_def split: sum.splits)

lemma cell_7_orders:
  "filter is_order_event (events (fst (cell_7 s w))) = filter is_order_event (events w)"
proof -
  obtain w1 r where c: "cell_7_window w = (w1, r)"
    by (cases "cell_7_window w")
  then have "events w1 = events w"
    using cell_7_window_events [of w] by simp
  then show ?thesis
    by (simp add: cell_7_def c stock_data_client_get_stock_latest_trade_def log_event_def
        Let_def split: sum.splits option.splits)
qed

text \<open>
  C8: in every run of the notebook, from any world, whether the run ends normally or is
  stopped by an exception in some cell, no order request is constructed and no order is
  submitted: the run adds no order event to the events of the world.
\<close>

theorem notebook_never_orders:
  "filter is_order_event (events (fst (run_notebook w))) = filter is_order_event (events w)"
proof -
  obtain w1 r1 where c3: "cell_3 w = (w1, r1)" by (cases "cell_3 w")
  obtain w2 r2 where c4: "cell_4 w1 = (w2, r2)" by (cases "cell_4 w1")
  obtain w3 r3 where c5: "cell_5 w2 = (w3, r3)" by (cases "cell_5 w2")
  obtain w4 r4 where c6: "cell_6 w3 = (w4, r4)" by (cases "cell_6 w3")
  have o1: "filter is_order_event (events w1) = filter is_order_event (events w)"
    using cell_3_orders [of w] by (simp add: c3)
  have o2: "filter is_order_event (events w2) = filter is_order_event (events w)"
    using cell_4_orders [of w1] by (simp add: c4 o1)
  have o3: "filter is_order_event (events w3) = filter is_order_event (events w)"
    using cell_5_orders [of w2] by (simp add: c5 o2)
  have o4: "filter is_order_event (events w4) = filter is_order_event (events w)"
    using cell_6_orders [of w3] by (simp add: c6 o3)
  show ?thesis
    by (simp add: run_notebook_def c3 c4 c5 c6 o1 o2 o3 o4 cell_7_orders
        split: sum.splits)
qed

end
